theory Spec2Isabelle
  imports Complex_Main "HOL-Library.Multiset"
begin

section \<open>Data model of the puzzle game\<close>

text \<open>
  The puzzle view (\<^verbatim>\<open>PuzzleGame\<close>) keeps its state in React hooks. JavaScript numbers that
  the code only ever uses as integers (piece ids, slot indices, millisecond clock readings,
  seconds, scores) are modelled as \<^typ>\<open>int\<close>; \<^verbatim>\<open>null\<close> is \<open>None\<close>.
\<close>

datatype difficulty = easy | medium | hard

record GameLevel =
  id_level :: string
  name_level :: string
  description_level :: string
  image_level :: string
  difficulty_level :: difficulty
  pieces_level :: int

record PuzzlePiece =
  id_piece :: int
  correctPosition :: int
  currentPosition :: int
  isPlaced :: bool

text \<open>A row of the \<^verbatim>\<open>game_progress\<close> table. Every column may be \<^verbatim>\<open>null\<close> when read
  back; \<open>completed_at\<close> holds the clock reading whose ISO string is stored (such a string is
  never empty, so it is truthy exactly when present).\<close>

record game_progress_row =
  user_id :: string
  level_id :: string
  completed_at :: "int option"
  time_taken :: "int option"
  score :: "int option"

datatype toast =
    Congratulations string int  \<comment> \<open>level name and seconds taken\<close>
  | FailedToSave                \<comment> \<open>the destructive "Failed to save your progress" toast\<close>

text \<open>What awaiting the insert gives: a response without error, a response carrying an
  error, or an exception.\<close>

datatype insert_outcome = InsertOk | InsertError string | InsertThrew string

text \<open>The component's props.\<close>

record props =
  level :: GameLevel
  user :: string  \<comment> \<open>\<^verbatim>\<open>user.id\<close>\<close>

text \<open>The hook state of one mounted \<^verbatim>\<open>PuzzleGame\<close> (first five fields), followed by what
  the component has sent to the outside: the rows handed to \<^verbatim>\<open>insert\<close>, the toasts shown and
  the payloads of \<^verbatim>\<open>console.error\<close>.\<close>

record game_state =
  pieces :: "PuzzlePiece list"
  draggedPiece :: "int option"
  gameStartTime :: int
  gameCompleted :: bool
  completionTime :: "int option"
  inserts :: "game_progress_row list"
  toasts :: "toast list"
  console :: "string list"

section \<open>Initialisation\<close>

text \<open>The \<^verbatim>\<open>for (let i = 0; i < level.pieces; i++) initialPieces.push(...)\<close> loop.\<close>

function push_pieces :: "int \<Rightarrow> int \<Rightarrow> PuzzlePiece list \<Rightarrow> PuzzlePiece list" where
  "push_pieces i n initialPieces =
     (if i < n
      then push_pieces (i + 1) n
             (initialPieces @
               [\<lparr>id_piece = i, correctPosition = i, currentPosition = - 1, isPlaced = False\<rparr>])
      else initialPieces)"
  by pat_completeness auto
termination
  by (relation "measure (\<lambda>(i, n, acc). nat (n - i))") auto

declare push_pieces.simps [simp del]

text \<open>
  \<^verbatim>\<open>[...initialPieces].sort(() => Math.random() - 0.5)\<close>: the host's sort driven by a
  comparator that ignores its arguments and answers with the sign of a fresh random draw.
  The random source is the sequence of values \<^verbatim>\<open>Math.random()\<close> returns, indexed by the
  number of the call; the sort is an insertion sort that asks the comparator once per
  comparison (negative or zero: the new element goes in front; positive: it moves on).
\<close>

type_synonym random_source = "nat \<Rightarrow> real"

fun insert_random :: "random_source \<Rightarrow> nat \<Rightarrow> 'a \<Rightarrow> 'a list \<Rightarrow> 'a list \<times> nat" where
  "insert_random rnd k x [] = ([x], k)"
| "insert_random rnd k x (y # ys) =
     (if rnd k - 1 / 2 \<le> 0 then (x # y # ys, Suc k)
      else (case insert_random rnd (Suc k) x ys of (zs, k') \<Rightarrow> (y # zs, k')))"

fun sort_random :: "random_source \<Rightarrow> nat \<Rightarrow> 'a list \<Rightarrow> 'a list \<times> nat" where
  "sort_random rnd k [] = ([], k)"
| "sort_random rnd k (x # xs) =
     (case sort_random rnd k xs of (ys, k') \<Rightarrow> insert_random rnd k' x ys)"

definition initializePuzzle :: "random_source \<Rightarrow> int \<Rightarrow> PuzzlePiece list" where
  "initializePuzzle rnd n =
     (let initialPieces = push_pieces 0 n [];
          shuffled = fst (sort_random rnd 0 initialPieces)
      in shuffled)"

section \<open>Drag and drop\<close>

text \<open>\<^verbatim>\<open>Array.prototype.findIndex\<close>: the first index whose element satisfies the predicate;
  \<open>None\<close> stands for the result \<^verbatim>\<open>-1\<close>.\<close>

fun findIndex :: "('a \<Rightarrow> bool) \<Rightarrow> 'a list \<Rightarrow> nat option" where
  "findIndex P [] = None"
| "findIndex P (x # xs) = (if P x then Some 0 else map_option Suc (findIndex P xs))"

text \<open>
  The updater passed to \<^verbatim>\<open>setPieces\<close> in \<^verbatim>\<open>handleDrop\<close>. \<^verbatim>\<open>find\<close> returns the first piece
  object at the target position; every list position holds an object of its own, so writing
  to that object is an update at its index. The dragged piece is written afterwards, on top
  of the eviction.
\<close>

definition drop_updater :: "int \<Rightarrow> int \<Rightarrow> PuzzlePiece list \<Rightarrow> PuzzlePiece list" where
  "drop_updater dragged targetPosition prev =
     (case findIndex (\<lambda>p. id_piece p = dragged) prev of
        None \<Rightarrow> prev
      | Some pieceIndex \<Rightarrow>
          (let afterEviction =
                 (case findIndex (\<lambda>p. currentPosition p = targetPosition) prev of
                    None \<Rightarrow> prev
                  | Some occupied \<Rightarrow>
                      prev[occupied := (prev ! occupied)\<lparr>currentPosition := - 1, isPlaced := False\<rparr>])
           in afterEviction[pieceIndex :=
                (afterEviction ! pieceIndex)\<lparr>currentPosition := targetPosition, isPlaced := True\<rparr>]))"

definition handleDragStart :: "int \<Rightarrow> game_state \<Rightarrow> game_state" where
  "handleDragStart pieceId s = s\<lparr>draggedPiece := Some pieceId\<rparr>"

text \<open>\<^verbatim>\<open>handleDrop\<close>: nothing at all happens when no piece is being dragged.\<close>

definition handleDrop :: "int \<Rightarrow> game_state \<Rightarrow> game_state" where
  "handleDrop targetPosition s =
     (case draggedPiece s of
        None \<Rightarrow> s
      | Some dragged \<Rightarrow>
          s\<lparr>pieces := drop_updater dragged targetPosition (pieces s), draggedPiece := None\<rparr>)"

section \<open>Completion and scoring\<close>

definition score_of :: "int \<Rightarrow> int" where
  "score_of timeTaken = max (1000 - timeTaken) 100"

text \<open>\<^verbatim>\<open>saveGameResult\<close> up to its \<^verbatim>\<open>await\<close>: the score is computed and the row is handed
  to \<^verbatim>\<open>insert\<close>; \<open>savedAt\<close> is the clock reading of \<^verbatim>\<open>new Date()\<close>.\<close>

definition saveGameResult_row :: "props \<Rightarrow> int \<Rightarrow> int \<Rightarrow> game_progress_row" where
  "saveGameResult_row pr savedAt timeTaken =
     \<lparr>user_id = user pr, level_id = id_level (level pr), completed_at = Some savedAt,
      time_taken = Some timeTaken, score = Some (score_of timeTaken)\<rparr>"

definition saveGameResult :: "props \<Rightarrow> int \<Rightarrow> int \<Rightarrow> game_state \<Rightarrow> game_state" where
  "saveGameResult pr savedAt timeTaken s =
     s\<lparr>inserts := inserts s @ [saveGameResult_row pr savedAt timeTaken]\<rparr>"

text \<open>The rest of \<^verbatim>\<open>saveGameResult\<close>, run when the awaited insert settles.\<close>

fun saveGameResult_settled :: "insert_outcome \<Rightarrow> game_state \<Rightarrow> game_state" where
  "saveGameResult_settled InsertOk s = s"
| "saveGameResult_settled (InsertError e) s =
     s\<lparr>console := console s @ [e], toasts := toasts s @ [FailedToSave]\<rparr>"
| "saveGameResult_settled (InsertThrew e) s = s\<lparr>console := console s @ [e]\<rparr>"

definition allPlaced :: "PuzzlePiece list \<Rightarrow> bool" where
  "allPlaced ps = list_all (\<lambda>piece. isPlaced piece \<and> currentPosition piece = correctPosition piece) ps"

text \<open>
  \<^verbatim>\<open>checkGameCompletion\<close> reads \<^verbatim>\<open>pieces\<close>, \<^verbatim>\<open>gameCompleted\<close> and \<^verbatim>\<open>gameStartTime\<close> from
  the render it was created in (\<open>rendered\<close>) and queues its state updates on top of the
  updates already queued (\<open>pending\<close>). \<open>endTime\<close> and \<open>savedAt\<close> are the two clock readings
  it takes.
\<close>

definition checkGameCompletion ::
  "props \<Rightarrow> int \<Rightarrow> int \<Rightarrow> game_state \<Rightarrow> game_state \<Rightarrow> game_state" where
  "checkGameCompletion pr endTime savedAt rendered pending =
     (if allPlaced (pieces rendered) \<and> \<not> gameCompleted rendered
      then (let timeTaken = (endTime - gameStartTime rendered) div 1000
            in (saveGameResult pr savedAt timeTaken
                  (pending\<lparr>completionTime := Some timeTaken, gameCompleted := True\<rparr>))
                 \<lparr>toasts := toasts pending @ [Congratulations (name_level (level pr)) timeTaken]\<rparr>)
      else pending)"

section \<open>The level catalogue\<close>

text \<open>The hard-coded list of the dashboard.\<close>

definition gameLevels :: "GameLevel list" where
  "gameLevels =
     [\<lparr>id_level = ''ha-long-bay'', name_level = ''Ha Long Bay'',
       description_level = ''UNESCO World Heritage Site with limestone pillars'',
       image_level = ''/placeholder.svg'', difficulty_level = easy, pieces_level = 12\<rparr>,
      \<lparr>id_level = ''hoi-an'', name_level = ''Hoi An Ancient Town'',
       description_level = ''Beautiful lantern-lit ancient trading port'',
       image_level = ''/placeholder.svg'', difficulty_level = medium, pieces_level = 24\<rparr>,
      \<lparr>id_level = ''temple-of-literature'', name_level = ''Temple of Literature'',
       description_level = ''Vietnam's first university in Hanoi'',
       image_level = ''/placeholder.svg'', difficulty_level = hard, pieces_level = 48\<rparr>]"

section \<open>The mounted component as a state machine\<close>

text \<open>The first render: the initial values of the hooks; \<open>t0\<close> is the \<^verbatim>\<open>Date.now()\<close> that
  initialises \<^verbatim>\<open>gameStartTime\<close>. Nothing has been sent out yet.\<close>

definition first_render :: "int \<Rightarrow> game_state" where
  "first_render t0 =
     \<lparr>pieces = [], draggedPiece = None, gameStartTime = t0, gameCompleted = False,
      completionTime = None, inserts = [], toasts = [], console = []\<rparr>"

text \<open>
  Mounting runs both effects of the first render in the order they are declared:
  \<^verbatim>\<open>initializePuzzle()\<close> queues the shuffled pieces, then \<^verbatim>\<open>checkGameCompletion()\<close> runs in
  the closure of the first render, whose \<^verbatim>\<open>pieces\<close> is still the empty array. The queued
  updates give the second render; its \<^verbatim>\<open>pieces\<close> is a new array, so the completion effect
  runs once more, now on the state it was rendered from.
\<close>

definition mount :: "props \<Rightarrow> random_source \<Rightarrow> int \<Rightarrow> int \<Rightarrow> int \<Rightarrow> int \<Rightarrow> int \<Rightarrow> game_state" where
  "mount pr rnd t0 endTime1 savedAt1 endTime2 savedAt2 =
     (let rendered = first_render t0;
          queued = rendered\<lparr>pieces := initializePuzzle rnd (pieces_level (level pr))\<rparr>;
          second = checkGameCompletion pr endTime1 savedAt1 rendered queued
      in checkGameCompletion pr endTime2 savedAt2 second second)"

text \<open>What can happen to a mounted game: a drag starts on a piece, a drop lands on a grid
  cell (with the two clock readings of the completion check that follows it), or a pending
  insert settles.\<close>

datatype event =
    DragStart int
  | Drop int int int
  | InsertSettled insert_outcome

text \<open>A drop with no dragged piece returns before any state is set, so nothing is rendered
  again; otherwise \<^verbatim>\<open>setPieces\<close> always installs a new array and the completion effect runs
  on the new render.\<close>

fun step :: "props \<Rightarrow> event \<Rightarrow> game_state \<Rightarrow> game_state" where
  "step pr (DragStart pieceId) s = handleDragStart pieceId s"
| "step pr (Drop targetPosition endTime savedAt) s =
     (case draggedPiece s of
        None \<Rightarrow> s
      | Some dragged \<Rightarrow>
          (let rerendered = handleDrop targetPosition s
           in checkGameCompletion pr endTime savedAt rerendered rerendered))"
| "step pr (InsertSettled outcome) s = saveGameResult_settled outcome s"

fun run :: "props \<Rightarrow> event list \<Rightarrow> game_state \<Rightarrow> game_state" where
  "run pr [] s = s"
| "run pr (e # es) s = run pr es (step pr e s)"

section \<open>Invariant and auxiliary predicates\<close>

text \<open>No two pieces share a grid slot: the non-negative current positions are pairwise
  different (\<open>- 1\<close> is the pieces area, where any number of pieces may lie).\<close>

definition slot_unique :: "PuzzlePiece list \<Rightarrow> bool" where
  "slot_unique ps = distinct (filter (\<lambda>s. 0 \<le> s) (map currentPosition ps))"

definition unique_where :: "('a \<Rightarrow> bool) \<Rightarrow> 'a list \<Rightarrow> bool" where
  "unique_where P xs \<longleftrightarrow>
     (\<forall>i<length xs. \<forall>j<length xs. P (xs ! i) \<and> xs ! i = xs ! j \<longrightarrow> i = j)"

definition perfect_square :: "int \<Rightarrow> bool" where
  "perfect_square n = list_ex (\<lambda>k. k * k = n) [0..n]"

text \<open>The React state of the session, without what was sent to the outside.\<close>

definition local_state ::
  "game_state \<Rightarrow> PuzzlePiece list \<times> int option \<times> int \<times> bool \<times> int option" where
  "local_state s = (pieces s, draggedPiece s, gameStartTime s, gameCompleted s, completionTime s)"

section \<open>Statistics on the dashboard\<close>

record user_stats =
  puzzles_completed :: nat
  total_score :: int
  best_time :: "int option"

text \<open>Truthiness of a nullable number, and \<^verbatim>\<open>x || 0\<close>.\<close>

definition truthy :: "int option \<Rightarrow> bool" where
  "truthy v = (case v of None \<Rightarrow> False | Some n \<Rightarrow> n \<noteq> 0)"

definition or_zero :: "int option \<Rightarrow> int" where
  "or_zero v = (if truthy v then (case v of Some n \<Rightarrow> n | None \<Rightarrow> 0) else 0)"

text \<open>\<^verbatim>\<open>Math.min(min, record.time_taken)\<close> with the accumulator starting at \<^verbatim>\<open>Infinity\<close>
  (\<open>None\<close>); a \<^verbatim>\<open>null\<close> argument counts as 0.\<close>

definition min_time :: "int option \<Rightarrow> int option \<Rightarrow> int option" where
  "min_time acc v =
     (let t = (case v of Some n \<Rightarrow> n | None \<Rightarrow> 0)
      in case acc of None \<Rightarrow> Some t | Some m \<Rightarrow> Some (min m t))"

text \<open>
  \<^verbatim>\<open>fetchUserStats\<close> of the dashboard that reads \<^verbatim>\<open>game_progress\<close>. \<open>data\<close> is what the
  query returns: the user's rows, or \<^verbatim>\<open>null\<close>.
\<close>

definition fetchUserStats :: "game_progress_row list option \<Rightarrow> user_stats" where
  "fetchUserStats data =
     (case data of
        None \<Rightarrow> \<lparr>puzzles_completed = 0, total_score = 0, best_time = None\<rparr>
      | Some rows \<Rightarrow>
          if length rows > 0
          then \<lparr>puzzles_completed = length (filter (\<lambda>record. completed_at record \<noteq> None) rows),
                total_score = foldl (\<lambda>sum record. sum + or_zero (score record)) 0 rows,
                best_time = foldl (\<lambda>m record. min_time m (time_taken record)) None
                              (filter (\<lambda>record. truthy (time_taken record)) rows)\<rparr>
          else \<lparr>puzzles_completed = 0, total_score = 0, best_time = None\<rparr>)"

text \<open>The query \<^verbatim>\<open>.from('game_progress').select('*').eq('user_id', user.id)\<close> on a table.\<close>

definition select_user_rows :: "string \<Rightarrow> game_progress_row list \<Rightarrow> game_progress_row list" where
  "select_user_rows uid table = filter (\<lambda>record. user_id record = uid) table"

section \<open>A sample session\<close>

text \<open>
  A four-piece level, a player, a random source and clock readings, used to run the model
  on concrete input: the game is mounted at time 0 and its effects run 10 ms later.
\<close>

definition demo_level :: GameLevel where
  "demo_level = \<lparr>id_level = ''demo'', name_level = ''Demo'', description_level = '''',
                 image_level = ''/placeholder.svg'', difficulty_level = easy, pieces_level = 4\<rparr>"

definition demo_props :: props where
  "demo_props = \<lparr>level = demo_level, user = ''u1''\<rparr>"

definition demo_random :: random_source where
  "demo_random k = (if even k then 3 / 4 else 1 / 4)"

definition demo_mounted :: game_state where
  "demo_mounted = mount demo_props demo_random 0 10 11 20 21"

text \<open>Pieces 0 and 1 are put on each other's slots, then piece 0 is picked up again.\<close>

definition demo_swapped :: game_state where
  "demo_swapped =
     run demo_props [DragStart 0, Drop 1 4000 4001, DragStart 1, Drop 0 9000 9001, DragStart 0]
       demo_mounted"

text \<open>Every piece is dragged to its own slot, one minute and more after the start.\<close>

definition demo_solved :: game_state where
  "demo_solved =
     run demo_props [DragStart 0, Drop 0 61000 61001, DragStart 1, Drop 1 62000 62001,
                     DragStart 2, Drop 2 63000 63001, DragStart 3, Drop 3 64000 64001]
       demo_mounted"

section \<open>Auxiliary facts about the drop\<close>

lemma findIndex_Some:
  "findIndex P xs = Some i \<Longrightarrow> i < length xs \<and> P (xs ! i) \<and> (\<forall>k<i. \<not> P (xs ! k))"
proof (induction xs arbitrary: i)
  case Nil
  then show ?case by simp
next
  case (Cons x xs)
  show ?case
  proof (cases "P x")
    case True
    with Cons.prems show ?thesis by simp
  next
    case False
    with Cons.prems obtain j where j: "findIndex P xs = Some j" "i = Suc j"
      by auto
    from Cons.IH [OF j(1)] False j(2) show ?thesis
      by (auto simp: less_Suc_eq_0_disj)
  qed
qed

lemma findIndex_None: "findIndex P xs = None \<longleftrightarrow> (\<forall>x\<in>set xs. \<not> P x)"
  by (induction xs) auto

lemma unique_where_Cons:
  "unique_where P (x # xs) \<longleftrightarrow> (P x \<longrightarrow> x \<notin> set xs) \<and> unique_where P xs"
proof
  assume u: "unique_where P (x # xs)"
  have "x \<notin> set xs" if "P x"
  proof
    assume "x \<in> set xs"
    then obtain k where k: "k < length xs" "xs ! k = x"
      by (auto simp: in_set_conv_nth)
    from u have "P ((x # xs) ! 0) \<and> (x # xs) ! 0 = (x # xs) ! Suc k \<longrightarrow> 0 = Suc k"
      unfolding unique_where_def using k(1) by (metis length_Cons Suc_less_eq zero_less_Suc)
    with that k(2) show False by simp
  qed
  moreover have "unique_where P xs"
    unfolding unique_where_def
  proof (intro allI impI)
    fix i j
    assume ij: "i < length xs" "j < length xs" "P (xs ! i) \<and> xs ! i = xs ! j"
    from u have "P ((x # xs) ! Suc i) \<and> (x # xs) ! Suc i = (x # xs) ! Suc j \<longrightarrow> Suc i = Suc j"
      unfolding unique_where_def using ij(1,2) by (metis length_Cons Suc_less_eq)
    with ij(3) show "i = j" by auto
  qed
  ultimately show "(P x \<longrightarrow> x \<notin> set xs) \<and> unique_where P xs" by blast
next
  assume a: "(P x \<longrightarrow> x \<notin> set xs) \<and> unique_where P xs"
  show "unique_where P (x # xs)"
    unfolding unique_where_def
  proof (intro allI impI)
    fix i j
    assume ij: "i < length (x # xs)" "j < length (x # xs)"
      "P ((x # xs) ! i) \<and> (x # xs) ! i = (x # xs) ! j"
    show "i = j"
    proof (cases i)
      case 0
      show ?thesis
      proof (cases j)
        case (Suc j')
        with 0 ij a have "x \<notin> set xs" "xs ! j' = x" "j' < length xs" by auto
        then show ?thesis by (metis nth_mem)
      qed (simp add: 0)
    next
      case (Suc i')
      show ?thesis
      proof (cases j)
        case 0
        with Suc ij a have "x \<notin> set xs" "xs ! i' = x" "i' < length xs" by auto
        then show ?thesis by (metis nth_mem)
      next
        case (Suc j')
        with \<open>i = Suc i'\<close> ij a show ?thesis
          by (auto simp: unique_where_def)
      qed
    qed
  qed
qed

lemma distinct_filter_nth: "distinct (filter P xs) \<longleftrightarrow> unique_where P xs"
proof (induction xs)
  case Nil
  then show ?case by (simp add: unique_where_def)
next
  case (Cons x xs)
  then show ?case by (auto simp: unique_where_Cons)
qed

lemma length_drop_updater [simp]: "length (drop_updater d t ps) = length ps"
  by (simp add: drop_updater_def Let_def split: option.splits)

lemma drop_updater_absent:
  "findIndex (\<lambda>p. id_piece p = d) ps = None \<Longrightarrow> drop_updater d t ps = ps"
  by (simp add: drop_updater_def)

lemma drop_updater_nth:
  assumes "findIndex (\<lambda>p. id_piece p = d) ps = Some i" and "k < length ps"
  shows "drop_updater d t ps ! k =
     (if k = i then (ps ! i)\<lparr>currentPosition := t, isPlaced := True\<rparr>
      else if findIndex (\<lambda>p. currentPosition p = t) ps = Some k
           then (ps ! k)\<lparr>currentPosition := - 1, isPlaced := False\<rparr>
      else ps ! k)"
proof -
  from assms(1) have "i < length ps"
    using findIndex_Some [of "\<lambda>p. id_piece p = d" ps i] by blast
  with assms show ?thesis
    by (auto simp: drop_updater_def Let_def nth_list_update split: option.splits)
qed

lemma slot_unique_nth:
  "slot_unique ps \<longleftrightarrow>
     (\<forall>i<length ps. \<forall>j<length ps.
        0 \<le> currentPosition (ps ! i) \<and> currentPosition (ps ! i) = currentPosition (ps ! j) \<longrightarrow> i = j)"
  by (simp add: slot_unique_def distinct_filter_nth unique_where_def)

lemma findIndex_occupant:
  assumes "slot_unique ps" and m: "m < length ps" "currentPosition (ps ! m) = t" "0 \<le> t"
  shows "findIndex (\<lambda>p. currentPosition p = t) ps = Some m"
proof (cases "findIndex (\<lambda>p. currentPosition p = t) ps")
  case None
  then have "\<forall>x\<in>set ps. currentPosition x \<noteq> t"
    by (simp add: findIndex_None)
  with m(1,2) show ?thesis by (metis nth_mem)
next
  case (Some j)
  then have "j < length ps \<and> currentPosition (ps ! j) = t"
    using findIndex_Some [of "\<lambda>p. currentPosition p = t" ps j] by blast
  with assms have "j = m"
    unfolding slot_unique_nth by auto
  with Some show ?thesis by simp
qed

lemma slot_unique_drop_updater:
  assumes "slot_unique ps"
  shows "slot_unique (drop_updater d t ps)"
proof (cases "findIndex (\<lambda>p. id_piece p = d) ps")
  case None
  with assms show ?thesis by (simp add: drop_updater_absent)
next
  case (Some i)
  let ?occ = "findIndex (\<lambda>p. currentPosition p = t) ps"
  let ?np = "\<lambda>m. currentPosition (drop_updater d t ps ! m)"
  have U: "a = b" if "a < length ps" "b < length ps" "0 \<le> currentPosition (ps ! a)"
      "currentPosition (ps ! a) = currentPosition (ps ! b)" for a b
    using assms that unfolding slot_unique_nth by blast
  have np: "?np m = (if m = i then t else if ?occ = Some m then - 1 else currentPosition (ps ! m))"
    if "m < length ps" for m
    by (simp add: drop_updater_nth [OF Some that])
  have at_target: "?occ = Some m" if "m < length ps" "currentPosition (ps ! m) = t" "0 \<le> t" for m
    using assms that by (rule findIndex_occupant)
  show ?thesis
    unfolding slot_unique_nth
  proof (intro allI impI)
    fix k l
    assume "k < length (drop_updater d t ps)" and "l < length (drop_updater d t ps)"
      and eq: "0 \<le> ?np k \<and> ?np k = ?np l"
    then have kl: "k < length ps" "l < length ps" by simp_all
    note npk = np [OF kl(1)] and npl = np [OF kl(2)]
    consider (both) "k = i" "l = i" | (left) "k = i" "l \<noteq> i" | (right) "k \<noteq> i" "l = i"
      | (neither) "k \<noteq> i" "l \<noteq> i"
      by blast
    then show "k = l"
    proof cases
      case both
      then show ?thesis by simp
    next
      case left
      with eq npk npl have t: "0 \<le> t" and l: "?np l = t" by simp_all
      have "?occ \<noteq> Some l"
        using t l npl left by auto
      with npl left l have "currentPosition (ps ! l) = t" by simp
      with at_target [OF kl(2) _ t] \<open>?occ \<noteq> Some l\<close> show ?thesis by simp
    next
      case right
      with eq npk npl have t: "0 \<le> t" and k: "?np k = t" by simp_all
      have "?occ \<noteq> Some k"
        using t k npk right by auto
      with npk right k have "currentPosition (ps ! k) = t" by simp
      with at_target [OF kl(1) _ t] \<open>?occ \<noteq> Some k\<close> show ?thesis by simp
    next
      case neither
      have k: "?occ \<noteq> Some k"
        using eq npk neither by auto
      with npk neither have pk: "?np k = currentPosition (ps ! k)" by simp
      have l: "?occ \<noteq> Some l"
        using eq npl neither pk npk by auto
      with npl neither have pl: "?np l = currentPosition (ps ! l)" by simp
      from eq pk pl show ?thesis
        by (intro U [OF kl]) simp_all
    qed
  qed
qed

section \<open>Auxiliary facts about initialisation\<close>

lemma push_pieces_upto:
  "push_pieces i n acc =
     acc @ map (\<lambda>k. \<lparr>id_piece = k, correctPosition = k, currentPosition = - 1, isPlaced = False\<rparr>) [i..n - 1]"
proof (induction i n acc rule: push_pieces.induct)
  case (1 i n acc)
  show ?case
  proof (cases "i < n")
    case True
    then have "[i..n - 1] = i # [i + 1..n - 1]"
      by (simp add: upto_rec1)
    with True "1.IH" show ?thesis
      by (subst push_pieces.simps) simp
  next
    case False
    then show ?thesis
      by (subst push_pieces.simps) simp
  qed
qed

lemma mset_insert_random: "mset (fst (insert_random rnd k x xs)) = add_mset x (mset xs)"
proof (induction xs arbitrary: k)
  case Nil
  then show ?case by simp
next
  case (Cons y ys)
  obtain zs k' where r: "insert_random rnd (Suc k) x ys = (zs, k')"
    by (cases "insert_random rnd (Suc k) x ys")
  with Cons.IH [of "Suc k"] have "mset zs = add_mset x (mset ys)" by simp
  with r show ?case by simp
qed

lemma mset_sort_random: "mset (fst (sort_random rnd k xs)) = mset xs"
proof (induction xs arbitrary: k)
  case Nil
  then show ?case by simp
next
  case (Cons x xs)
  obtain ys k' where r: "sort_random rnd k xs = (ys, k')"
    by (cases "sort_random rnd k xs")
  with Cons.IH [of k] have "mset ys = mset xs" by simp
  with r show ?case
    by (simp add: mset_insert_random)
qed

lemma mset_initializePuzzle:
  "mset (initializePuzzle rnd n) =
     mset (map (\<lambda>k. \<lparr>id_piece = k, correctPosition = k, currentPosition = - 1, isPlaced = False\<rparr>) [0..n - 1])"
  by (simp add: initializePuzzle_def Let_def mset_sort_random push_pieces_upto)

lemma initializePuzzle_all_general:
  "length (initializePuzzle rnd n) = nat n
   \<and> list_all (\<lambda>p. currentPosition p = - 1 \<and> \<not> isPlaced p \<and> id_piece p = correctPosition p)
        (initializePuzzle rnd n)
   \<and> mset (map correctPosition (initializePuzzle rnd n)) = mset [0..n - 1]"
proof -
  let ?mk = "\<lambda>k. \<lparr>id_piece = k, correctPosition = k, currentPosition = - 1, isPlaced = False\<rparr>"
  have m: "mset (initializePuzzle rnd n) = mset (map ?mk [0..n - 1])"
    by (rule mset_initializePuzzle)
  from m have "size (mset (initializePuzzle rnd n)) = size (mset (map ?mk [0..n - 1]))"
    by simp
  then have len: "length (initializePuzzle rnd n) = nat n"
    by simp
  from m have "set (initializePuzzle rnd n) = set (map ?mk [0..n - 1])"
    by (rule mset_eq_setD)
  then have all: "list_all (\<lambda>p. currentPosition p = - 1 \<and> \<not> isPlaced p \<and> id_piece p = correctPosition p)
        (initializePuzzle rnd n)"
    by (auto simp: list_all_iff)
  from m have "image_mset correctPosition (mset (initializePuzzle rnd n)) =
      image_mset correctPosition (mset (map ?mk [0..n - 1]))"
    by simp
  then have "mset (map correctPosition (initializePuzzle rnd n)) = mset [0..n - 1]"
    by (simp add: image_mset.compositionality comp_def)
  with len all show ?thesis by blast
qed

lemma slot_unique_initializePuzzle: "slot_unique (initializePuzzle rnd n)"
proof -
  have "list_all (\<lambda>p. currentPosition p = - 1) (initializePuzzle rnd n)"
    using initializePuzzle_all_general [of rnd n] by (auto simp: list_all_iff)
  then have "filter (\<lambda>s. 0 \<le> s) (map currentPosition (initializePuzzle rnd n)) = []"
    by (auto simp: list_all_iff filter_empty_conv)
  then show ?thesis by (simp add: slot_unique_def)
qed

section \<open>Auxiliary facts about the state machine\<close>

lemma count_slot_Cons:
  "length (filter (\<lambda>q. currentPosition q = s) (p # ps)) =
     (if currentPosition p = s then 1 else 0) + length (filter (\<lambda>q. currentPosition q = s) ps)"
  by simp

lemma count_slot_zero:
  "length (filter (\<lambda>q. currentPosition q = s) ps) = 0 \<longleftrightarrow> s \<notin> currentPosition ` set ps"
  by (auto simp: filter_empty_conv)

lemma slot_unique_Cons:
  "slot_unique (p # ps) \<longleftrightarrow>
     (0 \<le> currentPosition p \<longrightarrow> currentPosition p \<notin> currentPosition ` set ps) \<and> slot_unique ps"
  by (auto simp: slot_unique_def)

lemma slot_unique_count:
  "slot_unique ps \<longleftrightarrow> (\<forall>s\<ge>0. length (filter (\<lambda>p. currentPosition p = s) ps) \<le> 1)"
proof (induction ps)
  case Nil
  then show ?case by (simp add: slot_unique_def)
next
  case (Cons p ps)
  let ?cnt = "\<lambda>s qs. length (filter (\<lambda>q. currentPosition q = s) qs)"
  show ?case
  proof (rule iffI)
    assume "slot_unique (p # ps)"
    then have fresh: "0 \<le> currentPosition p \<Longrightarrow> ?cnt (currentPosition p) ps = 0"
      and rest: "\<And>s. 0 \<le> s \<Longrightarrow> ?cnt s ps \<le> 1"
      unfolding slot_unique_Cons count_slot_zero using Cons.IH by blast+
    show "\<forall>s\<ge>0. ?cnt s (p # ps) \<le> 1"
    proof (rule allI, rule impI)
      fix s :: int
      assume s: "0 \<le> s"
      show "?cnt s (p # ps) \<le> 1"
      proof (cases "currentPosition p = s")
        case True
        with fresh s have "?cnt s ps = 0" by blast
        with True show ?thesis by (simp split: if_splits)
      next
        case False
        with rest [OF s] show ?thesis by (simp split: if_splits)
      qed
    qed
  next
    assume a: "\<forall>s\<ge>0. ?cnt s (p # ps) \<le> 1"
    have "?cnt (currentPosition p) ps = 0" if "0 \<le> currentPosition p"
    proof -
      from a that have "?cnt (currentPosition p) (p # ps) \<le> 1" by blast
      then show ?thesis by (simp split: if_splits)
    qed
    moreover have "?cnt s ps \<le> 1" if "0 \<le> s" for s
    proof -
      from a that have "?cnt s (p # ps) \<le> 1" by blast
      then show ?thesis by (simp split: if_splits)
    qed
    ultimately show "slot_unique (p # ps)"
      unfolding slot_unique_Cons count_slot_zero using Cons.IH by blast
  qed
qed

lemma checkGameCompletion_local:
  "pieces (checkGameCompletion pr e sv r p) = pieces p"
  "draggedPiece (checkGameCompletion pr e sv r p) = draggedPiece p"
  "gameStartTime (checkGameCompletion pr e sv r p) = gameStartTime p"
  by (simp_all add: checkGameCompletion_def saveGameResult_def Let_def)

lemma pieces_mount:
  "pieces (mount pr rnd t0 e1 sv1 e2 sv2) = initializePuzzle rnd (pieces_level (level pr))"
  by (simp add: mount_def Let_def checkGameCompletion_local)

lemma pieces_step:
  "pieces (step pr e s) =
     (case e of Drop t _ _ \<Rightarrow> (case draggedPiece s of None \<Rightarrow> pieces s
                                  | Some d \<Rightarrow> drop_updater d t (pieces s))
              | _ \<Rightarrow> pieces s)"
proof (cases e)
  case (DragStart x)
  then show ?thesis by (simp add: handleDragStart_def)
next
  case (Drop t e' sv)
  then show ?thesis
    by (simp add: handleDrop_def checkGameCompletion_local Let_def split: option.splits)
next
  case (InsertSettled outcome)
  then show ?thesis by (cases outcome) simp_all
qed


lemma slot_unique_step: "slot_unique (pieces s) \<Longrightarrow> slot_unique (pieces (step pr e s))"
  by (simp add: pieces_step slot_unique_drop_updater split: event.splits option.splits)

lemma slot_unique_run: "slot_unique (pieces s) \<Longrightarrow> slot_unique (pieces (run pr evs s))"
  by (induction evs arbitrary: s) (simp_all add: slot_unique_step)

lemma slot_unique_session:
  "slot_unique (pieces (run pr evs (mount pr rnd t0 e1 sv1 e2 sv2)))"
  by (simp add: slot_unique_run pieces_mount slot_unique_initializePuzzle)

lemma checkGameCompletion_completed [simp]:
  "gameCompleted r \<Longrightarrow> checkGameCompletion pr e sv r p = p"
  by (simp add: checkGameCompletion_def saveGameResult_def)

lemma checkGameCompletion_fires:
  "allPlaced (pieces r) \<Longrightarrow> \<not> gameCompleted r \<Longrightarrow>
   checkGameCompletion pr e sv r p =
     p\<lparr>completionTime := Some ((e - gameStartTime r) div 1000),
       gameCompleted := True,
       inserts := inserts p @ [saveGameResult_row pr sv ((e - gameStartTime r) div 1000)],
       toasts := toasts p @ [Congratulations (name_level (level pr)) ((e - gameStartTime r) div 1000)]\<rparr>"
  by (simp add: checkGameCompletion_def saveGameResult_def Let_def)

lemma checkGameCompletion_idle:
  "\<not> allPlaced (pieces r) \<Longrightarrow> checkGameCompletion pr e sv r p = p"
  by (simp add: checkGameCompletion_def saveGameResult_def)

lemma step_completed:
  assumes "gameCompleted s"
  shows "gameCompleted (step pr e s) \<and> inserts (step pr e s) = inserts s
       \<and> completionTime (step pr e s) = completionTime s
       \<and> filter (\<lambda>t. t \<noteq> FailedToSave) (toasts (step pr e s)) = filter (\<lambda>t. t \<noteq> FailedToSave) (toasts s)"
proof (cases e)
  case (DragStart x)
  with assms show ?thesis by (simp add: handleDragStart_def)
next
  case (Drop t e' sv)
  with assms show ?thesis
    by (simp add: handleDrop_def Let_def split: option.splits)
next
  case (InsertSettled outcome)
  with assms show ?thesis by (cases outcome) simp_all
qed

lemma run_completed:
  "gameCompleted s \<Longrightarrow>
     gameCompleted (run pr evs s) \<and> inserts (run pr evs s) = inserts s
     \<and> completionTime (run pr evs s) = completionTime s
     \<and> filter (\<lambda>t. t \<noteq> FailedToSave) (toasts (run pr evs s)) = filter (\<lambda>t. t \<noteq> FailedToSave) (toasts s)"
proof (induction evs arbitrary: s)
  case Nil
  then show ?case by simp
next
  case (Cons e es)
  from step_completed [OF Cons.prems, of pr e] Cons.IH [of "step pr e s"]
  show ?case by simp
qed

lemma allPlaced_Nil [simp]: "allPlaced []"
  by (simp add: allPlaced_def)

lemma mount_eq:
  "mount pr rnd t0 e1 sv1 e2 sv2 =
     \<lparr>pieces = initializePuzzle rnd (pieces_level (level pr)), draggedPiece = None,
      gameStartTime = t0, gameCompleted = True, completionTime = Some ((e1 - t0) div 1000),
      inserts = [saveGameResult_row pr sv1 ((e1 - t0) div 1000)],
      toasts = [Congratulations (name_level (level pr)) ((e1 - t0) div 1000)], console = []\<rparr>"
  by (simp add: mount_def Let_def first_render_def checkGameCompletion_def saveGameResult_def)

lemma pieces_handleDrop:
  "draggedPiece s = Some d \<Longrightarrow> pieces (handleDrop t s) = drop_updater d t (pieces s)"
  by (simp add: handleDrop_def)

lemma pieces_step_Drop: "pieces (step pr (Drop t e sv) s) = pieces (handleDrop t s)"
  by (cases "draggedPiece s") (simp_all add: handleDrop_def Let_def checkGameCompletion_local)

lemma drop_updater_evicts:
  assumes u: "slot_unique ps"
    and a: "findIndex (\<lambda>p. id_piece p = d) ps = Some a"
    and b: "b < length ps" "currentPosition (ps ! b) = t" "0 \<le> t"
  shows "drop_updater d t ps =
     ps[b := (ps ! b)\<lparr>currentPosition := - 1, isPlaced := False\<rparr>,
        a := (ps ! a)\<lparr>currentPosition := t, isPlaced := True\<rparr>]"
proof -
  have occ: "findIndex (\<lambda>p. currentPosition p = t) ps = Some b"
    using u b by (rule findIndex_occupant)
  from a have al: "a < length ps"
    using findIndex_Some [of "\<lambda>p. id_piece p = d" ps a] by blast
  show ?thesis
  proof (cases "a = b")
    case True
    with a occ al show ?thesis
      by (simp add: drop_updater_def Let_def)
  next
    case False
    with a occ al b(1) show ?thesis
      by (simp add: drop_updater_def Let_def)
  qed
qed

lemma perfect_square_nonneg: "perfect_square n \<Longrightarrow> 0 \<le> n"
  by (cases "0 \<le> n") (simp_all add: perfect_square_def)

lemma fetchUserStats_no_results:
  "fetchUserStats (Some []) = \<lparr>puzzles_completed = 0, total_score = 0, best_time = None\<rparr>"
  "fetchUserStats None = \<lparr>puzzles_completed = 0, total_score = 0, best_time = None\<rparr>"
  by (simp_all add: fetchUserStats_def)

lemma fetchUserStats_two_results:
  "fetchUserStats (Some [\<lparr>user_id = u, level_id = l1, completed_at = Some c1,
                           time_taken = Some 120, score = Some 880\<rparr>,
                         \<lparr>user_id = u, level_id = l2, completed_at = Some c2,
                           time_taken = Some 90, score = Some 910\<rparr>])
     = \<lparr>puzzles_completed = 2, total_score = 1790, best_time = Some 90\<rparr>"
  by (simp add: fetchUserStats_def truthy_def or_zero_def min_time_def)

section \<open>Auxiliary facts about the statistics\<close>

lemma foldl_score_sum:
  "foldl (\<lambda>sum record. sum + or_zero (score record)) a rows
     = a + sum_list (map (\<lambda>record. or_zero (score record)) rows)"
  by (induction rows arbitrary: a) simp_all

lemma or_zero_Some [simp]: "or_zero (Some v) = v"
  by (simp add: or_zero_def truthy_def)

lemma foldl_min_time_Some:
  assumes "\<forall>r\<in>set rows. \<exists>t. time_taken r = Some t"
  shows "foldl (\<lambda>m record. min_time m (time_taken record)) (Some m0) rows
     = Some (Min (insert m0 ((\<lambda>r. or_zero (time_taken r)) ` set rows)))"
  using assms
proof (induction rows arbitrary: m0)
  case Nil
  then show ?case by simp
next
  case (Cons r rows)
  then obtain t where t: "time_taken r = Some t" by auto
  have fin: "finite ((\<lambda>r. or_zero (time_taken r)) ` set rows)" by simp
  have "Min (insert (min m0 t) ((\<lambda>r. or_zero (time_taken r)) ` set rows))
      = Min (insert m0 (insert t ((\<lambda>r. or_zero (time_taken r)) ` set rows)))"
    using fin by (cases "(\<lambda>r. or_zero (time_taken r)) ` set rows = {}") (simp_all add: min.assoc)
  with Cons t show ?case
    by (simp add: min_time_def)
qed


text \<open>What the aggregation returns on rows that are complete and have a non-zero time.\<close>

lemma fetchUserStats_complete_rows:
  assumes "rows \<noteq> []"
    and "\<forall>r\<in>set rows. completed_at r \<noteq> None \<and> (\<exists>t. time_taken r = Some t \<and> t \<noteq> 0)"
  shows "fetchUserStats (Some rows) =
     \<lparr>puzzles_completed = length rows,
      total_score = sum_list (map (\<lambda>r. or_zero (score r)) rows),
      best_time = Some (Min ((\<lambda>r. or_zero (time_taken r)) ` set rows))\<rparr>"
proof -
  from assms(2) have keep: "filter (\<lambda>record. completed_at record \<noteq> None) rows = rows"
    "filter (\<lambda>record. truthy (time_taken record)) rows = rows"
    by (auto simp: truthy_def filter_id_conv)
  obtain r rest where rows: "rows = r # rest"
    using assms(1) by (cases rows) auto
  with assms(2) obtain t where t: "time_taken r = Some t" by auto
  from assms(2) rows have "\<forall>r\<in>set rest. \<exists>t. time_taken r = Some t" by auto
  then have "foldl (\<lambda>m record. min_time m (time_taken record)) (Some t) rest
      = Some (Min (insert t ((\<lambda>r. or_zero (time_taken r)) ` set rest)))"
    by (rule foldl_min_time_Some)
  moreover have "min_time None (time_taken r) = Some t"
    using t by (simp add: min_time_def)
  ultimately have "foldl (\<lambda>m record. min_time m (time_taken record)) None rows
      = Some (Min ((\<lambda>r. or_zero (time_taken r)) ` set rows))"
    using t by (simp add: rows)
  with keep assms(1) show ?thesis
    by (simp add: fetchUserStats_def foldl_score_sum)
qed

section \<open>The catalogue and perfect squares\<close>

text \<open>None of the three levels of the catalogue has a perfect square as its piece count;
  the facts about initialisation above hold for every count.\<close>

lemma gameLevels_not_square:
  "map pieces_level gameLevels = [12, 24, 48]
   \<and> list_all (\<lambda>l. \<not> perfect_square (pieces_level l)) gameLevels"
  by (simp add: gameLevels_def perfect_square_def upto.simps)

section \<open>The sample session, evaluated\<close>

lemma initializePuzzle_demo:
  "initializePuzzle demo_random 4 =
     [\<lparr>id_piece = 1, correctPosition = 1, currentPosition = - 1, isPlaced = False\<rparr>,
      \<lparr>id_piece = 0, correctPosition = 0, currentPosition = - 1, isPlaced = False\<rparr>,
      \<lparr>id_piece = 3, correctPosition = 3, currentPosition = - 1, isPlaced = False\<rparr>,
      \<lparr>id_piece = 2, correctPosition = 2, currentPosition = - 1, isPlaced = False\<rparr>]"
  by (simp add: initializePuzzle_def push_pieces_upto upto.simps demo_random_def)

lemma demo_mounted_eq:
  "demo_mounted =
     \<lparr>pieces = [\<lparr>id_piece = 1, correctPosition = 1, currentPosition = - 1, isPlaced = False\<rparr>,
                 \<lparr>id_piece = 0, correctPosition = 0, currentPosition = - 1, isPlaced = False\<rparr>,
                 \<lparr>id_piece = 3, correctPosition = 3, currentPosition = - 1, isPlaced = False\<rparr>,
                 \<lparr>id_piece = 2, correctPosition = 2, currentPosition = - 1, isPlaced = False\<rparr>],
      draggedPiece = None, gameStartTime = 0, gameCompleted = True, completionTime = Some 0,
      inserts = [\<lparr>user_id = ''u1'', level_id = ''demo'', completed_at = Some 11,
                  time_taken = Some 0, score = Some 1000\<rparr>],
      toasts = [Congratulations ''Demo'' 0], console = []\<rparr>"
  by (simp add: demo_mounted_def mount_eq demo_props_def demo_level_def initializePuzzle_demo
      saveGameResult_row_def score_of_def)

lemma demo_swapped_eq:
  "demo_swapped =
     \<lparr>pieces = [\<lparr>id_piece = 1, correctPosition = 1, currentPosition = 0, isPlaced = True\<rparr>,
                 \<lparr>id_piece = 0, correctPosition = 0, currentPosition = 1, isPlaced = True\<rparr>,
                 \<lparr>id_piece = 3, correctPosition = 3, currentPosition = - 1, isPlaced = False\<rparr>,
                 \<lparr>id_piece = 2, correctPosition = 2, currentPosition = - 1, isPlaced = False\<rparr>],
      draggedPiece = Some 0, gameStartTime = 0, gameCompleted = True, completionTime = Some 0,
      inserts = [\<lparr>user_id = ''u1'', level_id = ''demo'', completed_at = Some 11,
                  time_taken = Some 0, score = Some 1000\<rparr>],
      toasts = [Congratulations ''Demo'' 0], console = []\<rparr>"
  by (simp add: demo_swapped_def demo_mounted_eq handleDragStart_def handleDrop_def
      drop_updater_def Let_def)

lemma demo_solved_eq:
  "demo_solved =
     \<lparr>pieces = [\<lparr>id_piece = 1, correctPosition = 1, currentPosition = 1, isPlaced = True\<rparr>,
                 \<lparr>id_piece = 0, correctPosition = 0, currentPosition = 0, isPlaced = True\<rparr>,
                 \<lparr>id_piece = 3, correctPosition = 3, currentPosition = 3, isPlaced = True\<rparr>,
                 \<lparr>id_piece = 2, correctPosition = 2, currentPosition = 2, isPlaced = True\<rparr>],
      draggedPiece = None, gameStartTime = 0, gameCompleted = True, completionTime = Some 0,
      inserts = [\<lparr>user_id = ''u1'', level_id = ''demo'', completed_at = Some 11,
                  time_taken = Some 0, score = Some 1000\<rparr>],
      toasts = [Congratulations ''Demo'' 0], console = []\<rparr>"
  by (simp add: demo_solved_def demo_mounted_eq handleDragStart_def handleDrop_def
      drop_updater_def Let_def)

text \<open>A drop in a session that is not completed yet completes it exactly when the updated
  pieces are all placed correctly. (No mounted session is in such a state: mounting already
  completes it.)\<close>

lemma drop_completes_iff_all_placed:
  assumes "\<not> gameCompleted s" and "draggedPiece s = Some d"
  shows "(inserts (step pr (Drop t e sv) s) \<noteq> inserts s)
       = allPlaced (pieces (step pr (Drop t e sv) s))"
proof -
  let ?s' = "handleDrop t s"
  have s': "\<not> gameCompleted ?s'" "inserts ?s' = inserts s"
    using assms by (simp_all add: handleDrop_def)
  have st: "step pr (Drop t e sv) s = checkGameCompletion pr e sv ?s' ?s'"
    using assms(2) by (simp add: Let_def)
  show ?thesis
    unfolding st checkGameCompletion_local
    using s' by (cases "allPlaced (pieces ?s')")
      (simp_all add: checkGameCompletion_fires checkGameCompletion_idle)
qed

text \<open>When the awaited insert throws, the error is logged and no toast is shown.\<close>

lemma insert_exception_only_logged:
  "toasts (saveGameResult_settled (InsertThrew x) s) = toasts s
   \<and> console (saveGameResult_settled (InsertThrew x) s) = console s @ [x]
   \<and> local_state (saveGameResult_settled (InsertThrew x) s) = local_state s"
  by (simp add: local_state_def)

text \<open>The statistics of the sample player after the sample puzzle was solved: the one row
  the session wrote has \<open>time_taken = 0\<close>.\<close>

lemma demo_stats:
  "fetchUserStats (Some (select_user_rows ''u1'' (inserts demo_solved)))
     = \<lparr>puzzles_completed = 1, total_score = 1000, best_time = None\<rparr>"
  by (simp add: demo_solved_eq select_user_rows_def fetchUserStats_def truthy_def or_zero_def)

section \<open>Completion\<close>

text \<open>In a mounted session with at least one piece the completed flag is set while no
  piece is placed, and it stays set whatever follows.\<close>

lemma mounted_completed_nothing_placed:
  assumes "0 < pieces_level (level pr)"
  shows "gameCompleted (mount pr rnd t0 e1 sv1 e2 sv2)
       \<and> \<not> allPlaced (pieces (mount pr rnd t0 e1 sv1 e2 sv2))
       \<and> gameCompleted (run pr evs (mount pr rnd t0 e1 sv1 e2 sv2))"
proof -
  let ?ps = "initializePuzzle rnd (pieces_level (level pr))"
  from initializePuzzle_all_general [of rnd "pieces_level (level pr)"] assms
  have "length ?ps = nat (pieces_level (level pr))"
    and unplaced: "list_all (\<lambda>p. currentPosition p = - 1 \<and> \<not> isPlaced p \<and> id_piece p = correctPosition p) ?ps"
    by simp_all
  with assms obtain p rest where ps: "?ps = p # rest"
    by (cases ?ps) auto
  with unplaced have "\<not> isPlaced p" by simp
  with ps have "\<not> allPlaced ?ps"
    by (simp add: allPlaced_def)
  moreover have "gameCompleted (mount pr rnd t0 e1 sv1 e2 sv2)"
    by (simp add: mount_eq)
  moreover from this have "gameCompleted (run pr evs (mount pr rnd t0 e1 sv1 e2 sv2))"
    using run_completed [of "mount pr rnd t0 e1 sv1 e2 sv2" pr evs] by simp
  ultimately show ?thesis
    by (simp add: pieces_mount)
qed

text \<open>
  C1. The completion transition is to fire if and only if every piece is placed on its
  correct slot, once per session. The code does not do so. In the sample session of four
  pieces the transition has fired when the game is mounted, with no piece placed: the
  session is completed, a row with 0 seconds and score 1000 is emitted and the
  congratulation is shown. When the four pieces are later all placed on their correct
  slots nothing fires: the rows and the toasts are those of the mount, and the completion
  time is still 0.
\<close>

theorem completion_fires_at_mount_not_on_solving:
  "gameCompleted demo_mounted
   \<and> \<not> allPlaced (pieces demo_mounted)
   \<and> list_all (\<lambda>p. \<not> isPlaced p) (pieces demo_mounted)
   \<and> inserts demo_mounted = [\<lparr>user_id = ''u1'', level_id = ''demo'', completed_at = Some 11,
                                 time_taken = Some 0, score = Some 1000\<rparr>]
   \<and> toasts demo_mounted = [Congratulations ''Demo'' 0]
   \<and> allPlaced (pieces demo_solved)
   \<and> inserts demo_solved = inserts demo_mounted
   \<and> toasts demo_solved = toasts demo_mounted
   \<and> completionTime demo_solved = Some 0"
  by (simp add: demo_mounted_eq demo_solved_eq allPlaced_def)

text \<open>
  C9. The completion predicate holds vacuously on the empty piece list, and the check does
  run on it: the first render has \<open>pieces = []\<close> and is not completed, so the check made in
  that render fires, although the shuffled pieces are already queued. Mounting thus
  completes the session and emits a row with the time between the first render and its
  effects. The guard is used up: whatever follows, the rows emitted by the session stay
  that one row.
\<close>

theorem empty_piece_set_completes_at_mount:
  "allPlaced []
   \<and> pieces (first_render t0) = [] \<and> \<not> gameCompleted (first_render t0)
   \<and> (pieces r = [] \<and> \<not> gameCompleted r \<longrightarrow>
        gameCompleted (checkGameCompletion pr e sv r p)
        \<and> inserts (checkGameCompletion pr e sv r p) =
            inserts p @ [saveGameResult_row pr sv ((e - gameStartTime r) div 1000)])
   \<and> gameCompleted (mount pr rnd t0 e1 sv1 e2 sv2)
   \<and> completionTime (mount pr rnd t0 e1 sv1 e2 sv2) = Some ((e1 - t0) div 1000)
   \<and> inserts (mount pr rnd t0 e1 sv1 e2 sv2) = [saveGameResult_row pr sv1 ((e1 - t0) div 1000)]
   \<and> inserts (run pr evs (mount pr rnd t0 e1 sv1 e2 sv2))
       = [saveGameResult_row pr sv1 ((e1 - t0) div 1000)]"
proof -
  have "inserts (run pr evs (mount pr rnd t0 e1 sv1 e2 sv2))
      = [saveGameResult_row pr sv1 ((e1 - t0) div 1000)]"
    using run_completed [of "mount pr rnd t0 e1 sv1 e2 sv2" pr evs] by (simp add: mount_eq)
  then show ?thesis
    by (simp add: mount_eq first_render_def checkGameCompletion_fires)
qed

text \<open>In the sample session the four pieces are all placed correctly after a minute, and
  the only row the session has emitted is the one of the mount: 0 seconds, score 1000.\<close>

theorem empty_piece_set_completes_at_mount_witness:
  "pieces (first_render 0) = [] \<and> \<not> gameCompleted (first_render 0)
   \<and> gameCompleted (checkGameCompletion demo_props 10 11 (first_render 0) (first_render 0))
   \<and> allPlaced (pieces demo_solved)
   \<and> inserts demo_solved = [\<lparr>user_id = ''u1'', level_id = ''demo'', completed_at = Some 11,
                                time_taken = Some 0, score = Some 1000\<rparr>]"
proof -
  have empty: "pieces (first_render 0) = [] \<and> \<not> gameCompleted (first_render 0)"
    by (simp add: first_render_def)
  have solved: "allPlaced (pieces demo_solved)"
    by (simp add: demo_solved_eq allPlaced_def)
  have row: "inserts demo_solved = [\<lparr>user_id = ''u1'', level_id = ''demo'', completed_at = Some 11,
                                time_taken = Some 0, score = Some 1000\<rparr>]"
    by (simp add: demo_solved_eq)
  from empty_piece_set_completes_at_mount
    [of 0 "first_render 0" demo_props 10 11 "first_render 0" demo_random 10 11 20 21 "[]"]
    empty solved row
  show ?thesis by blast
qed

section \<open>Scoring\<close>

text \<open>
  C2. A session completed after \<open>elapsedSeconds \<ge> 0\<close> seconds persists the score
  \<open>max (1000 - elapsedSeconds) 100\<close>: the row handed to the data store carries that score and
  that time, and it is the row the completion transition emits, with the elapsed time being
  the whole seconds between the start and the check. Zero seconds give 1000, 900 seconds
  give 100, and from 900 seconds on the score is exactly 100.
\<close>

theorem score_floor_clamped:
  assumes "0 \<le> elapsedSeconds"
  shows "score (saveGameResult_row pr savedAt elapsedSeconds) = Some (max (1000 - elapsedSeconds) 100)
       \<and> time_taken (saveGameResult_row pr savedAt elapsedSeconds) = Some elapsedSeconds
       \<and> (allPlaced (pieces r) \<and> \<not> gameCompleted r
            \<and> (endTime - gameStartTime r) div 1000 = elapsedSeconds \<longrightarrow>
            inserts (checkGameCompletion pr endTime savedAt r p)
              = inserts p @ [saveGameResult_row pr savedAt elapsedSeconds])
       \<and> score_of 0 = 1000
       \<and> score_of 900 = 100
       \<and> (900 \<le> elapsedSeconds \<longrightarrow> score_of elapsedSeconds = 100)"
  by (auto simp: saveGameResult_row_def score_of_def checkGameCompletion_fires)

theorem score_floor_clamped_witness:
  "(0::int) \<le> 2000 \<and> (900::int) \<le> 2000
   \<and> allPlaced (pieces (first_render 0)) \<and> \<not> gameCompleted (first_render 0)
   \<and> (2000500 - gameStartTime (first_render 0)) div 1000 = 2000
   \<and> inserts (checkGameCompletion demo_props 2000500 2000501 (first_render 0) (first_render 0))
       = [\<lparr>user_id = ''u1'', level_id = ''demo'', completed_at = Some 2000501,
           time_taken = Some 2000, score = Some 100\<rparr>]
   \<and> score_of 2000 = 100"
proof -
  have h: "(0::int) \<le> 2000" by simp
  have fires: "allPlaced (pieces (first_render 0))" "\<not> gameCompleted (first_render 0)"
    "(2000500 - gameStartTime (first_render 0)) div 1000 = 2000"
    "inserts (first_render 0) = []"
    by (simp_all add: first_render_def)
  have row: "saveGameResult_row demo_props 2000501 2000
      = \<lparr>user_id = ''u1'', level_id = ''demo'', completed_at = Some 2000501,
         time_taken = Some 2000, score = Some 100\<rparr>"
    by (simp add: saveGameResult_row_def score_of_def demo_props_def demo_level_def)
  from score_floor_clamped [OF h, of demo_props 2000501 "first_render 0" 2000500 "first_render 0"]
    fires row
  show ?thesis by simp
qed

section \<open>Dropping a piece\<close>

text \<open>
  C3. In a state that satisfies the slot invariant (as every reachable state does), let
  piece A be the dragged piece (at index \<open>a\<close>) and let a different piece B (at index \<open>b\<close>)
  lie on the grid slot \<open>targetSlot\<close>. After the drop A is placed on \<open>targetSlot\<close>, B is back in
  the pieces area (\<open>currentPosition = - 1\<close>, not placed), every other piece is as before, and
  the slot A came from, if it was on one, holds no piece: B does not move there.
\<close>

theorem drop_on_occupied_slot_evicts:
  assumes "slot_unique (pieces s)"
    and "draggedPiece s = Some d"
    and "findIndex (\<lambda>p. id_piece p = d) (pieces s) = Some a"
    and "b < length (pieces s)" and "b \<noteq> a"
    and "currentPosition (pieces s ! b) = targetSlot" and "0 \<le> targetSlot"
  shows "pieces (handleDrop targetSlot s) =
           (pieces s)[b := (pieces s ! b)\<lparr>currentPosition := - 1, isPlaced := False\<rparr>,
                      a := (pieces s ! a)\<lparr>currentPosition := targetSlot, isPlaced := True\<rparr>]
       \<and> pieces (handleDrop targetSlot s) ! a = (pieces s ! a)\<lparr>currentPosition := targetSlot, isPlaced := True\<rparr>
       \<and> pieces (handleDrop targetSlot s) ! b = (pieces s ! b)\<lparr>currentPosition := - 1, isPlaced := False\<rparr>
       \<and> (\<forall>k<length (pieces s). k \<noteq> a \<and> k \<noteq> b \<longrightarrow> pieces (handleDrop targetSlot s) ! k = pieces s ! k)
       \<and> (0 \<le> currentPosition (pieces s ! a) \<longrightarrow>
            list_all (\<lambda>p. currentPosition p \<noteq> currentPosition (pieces s ! a)) (pieces (handleDrop targetSlot s)))
       \<and> pieces (step pr (Drop targetSlot endTime savedAt) s) = pieces (handleDrop targetSlot s)"
proof -
  let ?ps = "pieces s" and ?ps' = "pieces (handleDrop targetSlot s)"
  from assms(3) have al: "a < length ?ps"
    using findIndex_Some [of "\<lambda>p. id_piece p = d" ?ps a] by blast
  have eq: "?ps' = ?ps[b := (?ps ! b)\<lparr>currentPosition := - 1, isPlaced := False\<rparr>,
                      a := (?ps ! a)\<lparr>currentPosition := targetSlot, isPlaced := True\<rparr>]"
    using assms by (simp add: pieces_handleDrop drop_updater_evicts)
  have U: "i = j" if "i < length ?ps" "j < length ?ps" "0 \<le> currentPosition (?ps ! i)"
      "currentPosition (?ps ! i) = currentPosition (?ps ! j)" for i j
    using assms(1) that unfolding slot_unique_nth by blast
  have na: "?ps' ! a = (?ps ! a)\<lparr>currentPosition := targetSlot, isPlaced := True\<rparr>"
    using al by (simp add: eq)
  have nb: "?ps' ! b = (?ps ! b)\<lparr>currentPosition := - 1, isPlaced := False\<rparr>"
    using assms(4,5) by (simp add: eq)
  have others: "\<forall>k<length ?ps. k \<noteq> a \<and> k \<noteq> b \<longrightarrow> ?ps' ! k = ?ps ! k"
    by (simp add: eq)
  have prev: "list_all (\<lambda>p. currentPosition p \<noteq> currentPosition (?ps ! a)) ?ps'"
    if old: "0 \<le> currentPosition (?ps ! a)"
    unfolding list_all_length
  proof (intro allI impI)
    fix k assume "k < length ?ps'"
    then have k: "k < length ?ps" by (simp add: eq)
    have ab: "currentPosition (?ps ! a) \<noteq> targetSlot"
      using U [OF al assms(4) old] assms(5,6) by auto
    show "currentPosition (?ps' ! k) \<noteq> currentPosition (?ps ! a)"
    proof (cases "k = a")
      case True
      with na ab show ?thesis by simp
    next
      case False
      show ?thesis
      proof (cases "k = b")
        case True
        with nb old show ?thesis by simp
      next
        case kb: False
        with False others k have "?ps' ! k = ?ps ! k" by simp
        moreover have "currentPosition (?ps ! k) \<noteq> currentPosition (?ps ! a)"
          using U [OF al k old] False by auto
        ultimately show ?thesis by simp
      qed
    qed
  qed
  have st: "pieces (step pr (Drop targetSlot endTime savedAt) s) = ?ps'"
    by (rule pieces_step_Drop)
  from eq na nb others prev st show ?thesis
    by blast
qed

text \<open>In the sample session piece 0 lies on slot 1 and piece 1 on slot 0; piece 0 is dropped
  on slot 0. Piece 1 returns to the pieces area and slot 1 is left empty.\<close>

theorem drop_on_occupied_slot_evicts_witness:
  "slot_unique (pieces demo_swapped) \<and> draggedPiece demo_swapped = Some 0
   \<and> findIndex (\<lambda>p. id_piece p = 0) (pieces demo_swapped) = Some 1
   \<and> currentPosition (pieces demo_swapped ! 0) = 0
   \<and> currentPosition (pieces demo_swapped ! 1) = 1
   \<and> pieces (handleDrop 0 demo_swapped) ! 1
       = \<lparr>id_piece = 0, correctPosition = 0, currentPosition = 0, isPlaced = True\<rparr>
   \<and> pieces (handleDrop 0 demo_swapped) ! 0
       = \<lparr>id_piece = 1, correctPosition = 1, currentPosition = - 1, isPlaced = False\<rparr>
   \<and> list_all (\<lambda>p. currentPosition p \<noteq> 1) (pieces (handleDrop 0 demo_swapped))"
proof -
  have inv: "slot_unique (pieces demo_swapped)"
    by (simp add: demo_swapped_eq slot_unique_def)
  have drag: "draggedPiece demo_swapped = Some 0"
    by (simp add: demo_swapped_eq)
  have a: "findIndex (\<lambda>p. id_piece p = 0) (pieces demo_swapped) = Some 1"
    by (simp add: demo_swapped_eq)
  have b: "0 < length (pieces demo_swapped)" "(0::nat) \<noteq> 1"
    "currentPosition (pieces demo_swapped ! 0) = 0" "(0::int) \<le> 0"
    by (simp_all add: demo_swapped_eq)
  have old: "currentPosition (pieces demo_swapped ! 1) = 1"
    by (simp add: demo_swapped_eq)
  from drop_on_occupied_slot_evicts [OF inv drag a b, of demo_props 1 2] inv drag a b(3) old
  show ?thesis
    by (simp add: demo_swapped_eq)
qed

text \<open>
  C10. Dropping the dragged piece on the grid slot it already occupies: in a state that
  satisfies the slot invariant the search for an occupant of the target finds the dragged
  piece itself, which is evicted and then placed again. The result has the piece on
  \<open>targetSlot\<close> and placed, and every other piece unchanged.
\<close>

theorem drop_on_own_slot_keeps_piece:
  assumes "slot_unique (pieces s)"
    and "draggedPiece s = Some d"
    and "findIndex (\<lambda>p. id_piece p = d) (pieces s) = Some a"
    and "currentPosition (pieces s ! a) = targetSlot" and "0 \<le> targetSlot"
  shows "findIndex (\<lambda>p. currentPosition p = targetSlot) (pieces s) = Some a
       \<and> pieces (handleDrop targetSlot s) = (pieces s)[a := (pieces s ! a)\<lparr>isPlaced := True\<rparr>]
       \<and> currentPosition (pieces (handleDrop targetSlot s) ! a) = targetSlot
       \<and> isPlaced (pieces (handleDrop targetSlot s) ! a)
       \<and> (\<forall>k<length (pieces s). k \<noteq> a \<longrightarrow> pieces (handleDrop targetSlot s) ! k = pieces s ! k)
       \<and> pieces (step pr (Drop targetSlot endTime savedAt) s) = pieces (handleDrop targetSlot s)"
proof -
  let ?ps = "pieces s"
  from assms(3) have al: "a < length ?ps"
    using findIndex_Some [of "\<lambda>p. id_piece p = d" ?ps a] by blast
  have occ: "findIndex (\<lambda>p. currentPosition p = targetSlot) ?ps = Some a"
    using assms(1) al assms(4,5) by (rule findIndex_occupant)
  have same: "(?ps ! a)\<lparr>currentPosition := targetSlot, isPlaced := True\<rparr> = (?ps ! a)\<lparr>isPlaced := True\<rparr>"
    using assms(4) by simp
  have "pieces (handleDrop targetSlot s) =
      ?ps[a := (?ps ! a)\<lparr>currentPosition := - 1, isPlaced := False\<rparr>,
          a := (?ps ! a)\<lparr>currentPosition := targetSlot, isPlaced := True\<rparr>]"
    using assms(2) drop_updater_evicts [OF assms(1,3) al assms(4,5)]
    by (simp only: pieces_handleDrop)
  then have eq: "pieces (handleDrop targetSlot s) = ?ps[a := (?ps ! a)\<lparr>isPlaced := True\<rparr>]"
    by (simp only: list_update_overwrite same)
  have st: "pieces (step pr (Drop targetSlot endTime savedAt) s) = pieces (handleDrop targetSlot s)"
    by (rule pieces_step_Drop)
  have "currentPosition (pieces (handleDrop targetSlot s) ! a) = targetSlot"
    and "isPlaced (pieces (handleDrop targetSlot s) ! a)"
    and "\<forall>k<length ?ps. k \<noteq> a \<longrightarrow> pieces (handleDrop targetSlot s) ! k = ?ps ! k"
    using al assms(4) by (simp_all add: eq)
  with occ eq st show ?thesis
    by blast
qed

text \<open>In the sample session piece 0 lies on slot 1 and is dropped on slot 1 again.\<close>

theorem drop_on_own_slot_keeps_piece_witness:
  "slot_unique (pieces demo_swapped) \<and> draggedPiece demo_swapped = Some 0
   \<and> findIndex (\<lambda>p. id_piece p = 0) (pieces demo_swapped) = Some 1
   \<and> currentPosition (pieces demo_swapped ! 1) = 1
   \<and> findIndex (\<lambda>p. currentPosition p = 1) (pieces demo_swapped) = Some 1
   \<and> pieces (handleDrop 1 demo_swapped) = pieces demo_swapped"
proof -
  have inv: "slot_unique (pieces demo_swapped)"
    by (simp add: demo_swapped_eq slot_unique_def)
  have drag: "draggedPiece demo_swapped = Some 0"
    by (simp add: demo_swapped_eq)
  have a: "findIndex (\<lambda>p. id_piece p = 0) (pieces demo_swapped) = Some 1"
    by (simp add: demo_swapped_eq)
  have own: "currentPosition (pieces demo_swapped ! 1) = 1" "(0::int) \<le> 1"
    by (simp_all add: demo_swapped_eq)
  from drop_on_own_slot_keeps_piece [OF inv drag a own, of demo_props 1 2] inv drag a own(1)
  show ?thesis
    by (simp add: demo_swapped_eq)
qed

text \<open>
  C7. A drop is total and defensive, for every target: when no piece is being dragged the
  drop changes nothing at all, and when the dragged id belongs to no piece of the list the
  pieces are left exactly as they were (nothing is evicted). The model has no failure
  branch, as the handler has no path that throws.
\<close>

theorem drop_without_drag_or_piece_is_noop:
  "(draggedPiece s = None \<longrightarrow>
      handleDrop targetSlot s = s \<and> step pr (Drop targetSlot endTime savedAt) s = s)
   \<and> (draggedPiece s' = Some d \<and> d \<notin> set (map id_piece (pieces s')) \<longrightarrow>
        pieces (handleDrop targetSlot s') = pieces s'
        \<and> pieces (step pr (Drop targetSlot endTime savedAt) s') = pieces s')"
proof -
  have idle: "handleDrop targetSlot s = s \<and> step pr (Drop targetSlot endTime savedAt) s = s"
    if "draggedPiece s = None"
    using that by (simp add: handleDrop_def)
  have absent: "pieces (handleDrop targetSlot s') = pieces s'
      \<and> pieces (step pr (Drop targetSlot endTime savedAt) s') = pieces s'"
    if "draggedPiece s' = Some d" and "d \<notin> set (map id_piece (pieces s'))"
  proof -
    from that(2) have "findIndex (\<lambda>p. id_piece p = d) (pieces s') = None"
      by (auto simp: findIndex_None)
    with that(1) have "pieces (handleDrop targetSlot s') = pieces s'"
      by (simp add: pieces_handleDrop drop_updater_absent)
    then show ?thesis
      by (simp only: pieces_step_Drop)
  qed
  from idle absent show ?thesis
    by blast
qed

theorem drop_without_drag_or_piece_is_noop_witness:
  "draggedPiece demo_mounted = None
   \<and> handleDrop 2 demo_mounted = demo_mounted
   \<and> step demo_props (Drop 2 5000 5001) demo_mounted = demo_mounted
   \<and> draggedPiece (handleDragStart 99 demo_mounted) = Some 99
   \<and> 99 \<notin> set (map id_piece (pieces (handleDragStart 99 demo_mounted)))
   \<and> pieces (step demo_props (Drop 2 5000 5001) (handleDragStart 99 demo_mounted)) = pieces demo_mounted"
proof -
  have none: "draggedPiece demo_mounted = None"
    by (simp add: demo_mounted_eq)
  have ghost: "draggedPiece (handleDragStart 99 demo_mounted) = Some 99"
    "99 \<notin> set (map id_piece (pieces (handleDragStart 99 demo_mounted)))"
    "pieces (handleDragStart 99 demo_mounted) = pieces demo_mounted"
    by (simp_all add: demo_mounted_eq handleDragStart_def)
  from drop_without_drag_or_piece_is_noop
    [of demo_mounted 2 demo_props 5000 5001 "handleDragStart 99 demo_mounted" 99] none ghost
  show ?thesis by simp
qed

text \<open>
  C4. Slot uniqueness: for every slot \<open>s \<ge> 0\<close> at most one piece has \<open>currentPosition = s\<close>.
  The initial pieces satisfy it, beginning a drag and dropping on any target preserve it,
  as does every step of the machine, and so it holds in every state a mounted session
  reaches.
\<close>

theorem slot_uniqueness_invariant:
  "slot_unique (initializePuzzle rnd n)
   \<and> (slot_unique (pieces s) \<longrightarrow>
        slot_unique (pieces (handleDragStart pieceId s))
        \<and> slot_unique (pieces (handleDrop targetSlot s))
        \<and> slot_unique (pieces (step pr ev s)))
   \<and> slot_unique (pieces (run pr evs (mount pr rnd t0 endTime1 savedAt1 endTime2 savedAt2)))
   \<and> (\<forall>slot\<ge>0. length (filter (\<lambda>p. currentPosition p = slot)
          (pieces (run pr evs (mount pr rnd t0 endTime1 savedAt1 endTime2 savedAt2)))) \<le> 1)"
proof -
  have "slot_unique (pieces (handleDrop targetSlot s))" if "slot_unique (pieces s)"
    using that by (simp add: handleDrop_def slot_unique_drop_updater split: option.splits)
  moreover have "slot_unique (pieces (handleDragStart pieceId s))" if "slot_unique (pieces s)"
    using that by (simp add: handleDragStart_def)
  moreover note slot_unique_session [of pr evs rnd t0 endTime1 savedAt1 endTime2 savedAt2]
  moreover from this
  have "\<forall>slot\<ge>0. length (filter (\<lambda>p. currentPosition p = slot)
          (pieces (run pr evs (mount pr rnd t0 endTime1 savedAt1 endTime2 savedAt2)))) \<le> 1"
    by (simp only: slot_unique_count)
  ultimately show ?thesis
    using slot_unique_initializePuzzle slot_unique_step by blast
qed

theorem slot_uniqueness_invariant_witness:
  "slot_unique (pieces demo_swapped)
   \<and> slot_unique (pieces (handleDrop 0 demo_swapped))
   \<and> slot_unique (pieces (step demo_props (Drop 0 9500 9501) demo_swapped))
   \<and> (0::int) \<le> 1
   \<and> length (filter (\<lambda>p. currentPosition p = 1) (pieces demo_swapped)) \<le> 1"
proof -
  have inv: "slot_unique (pieces demo_swapped)"
    by (simp add: demo_swapped_eq slot_unique_def)
  from slot_uniqueness_invariant
    [of demo_random 4 demo_swapped 0 0 demo_props "Drop 0 9500 9501"
        "[DragStart 0, Drop 1 4000 4001, DragStart 1, Drop 0 9000 9001, DragStart 0]" 0 10 11 20 21]
    inv
  show ?thesis
    by (simp add: demo_swapped_def demo_mounted_def)
qed

section \<open>Initialisation of the pieces\<close>

text \<open>
  C5. For a piece count \<open>N\<close> that is a perfect square, initialisation yields exactly \<open>N\<close>
  pieces, each of them in the pieces area (\<open>currentPosition = - 1\<close>) and not placed, and the
  multiset of their correct positions is \<open>{0, \<dots>, N - 1}\<close>, for every random source: the
  shuffle only reorders. These are the pieces of the session once it is mounted.
\<close>

theorem initialization_creates_all_pieces_unplaced:
  assumes "perfect_square N"
  shows "int (length (initializePuzzle rnd N)) = N
       \<and> list_all (\<lambda>p. currentPosition p = - 1 \<and> isPlaced p = False) (initializePuzzle rnd N)
       \<and> mset (map correctPosition (initializePuzzle rnd N)) = mset [0..N - 1]
       \<and> (pieces_level (level pr) = N \<longrightarrow>
            pieces (mount pr rnd t0 endTime1 savedAt1 endTime2 savedAt2) = initializePuzzle rnd N)"
proof -
  from assms have "0 \<le> N" by (rule perfect_square_nonneg)
  moreover have "list_all (\<lambda>p. currentPosition p = - 1 \<and> isPlaced p = False) (initializePuzzle rnd N)"
    using initializePuzzle_all_general [of rnd N] by (auto simp: list_all_iff)
  ultimately show ?thesis
    using initializePuzzle_all_general [of rnd N] by (simp add: pieces_mount)
qed

theorem initialization_creates_all_pieces_unplaced_witness:
  "perfect_square 4 \<and> pieces_level (level demo_props) = 4
   \<and> int (length (initializePuzzle demo_random 4)) = 4
   \<and> list_all (\<lambda>p. currentPosition p = - 1 \<and> isPlaced p = False) (pieces demo_mounted)
   \<and> mset (map correctPosition (pieces demo_mounted)) = mset [0, 1, 2, 3]"
proof -
  have sq: "perfect_square 4"
    by (simp add: perfect_square_def upto.simps)
  have lvl: "pieces_level (level demo_props) = 4"
    by (simp add: demo_props_def demo_level_def)
  have range: "[0..(4::int) - 1] = [0, 1, 2, 3]"
    by (simp add: upto.simps)
  from initialization_creates_all_pieces_unplaced [OF sq, of demo_random demo_props 0 10 11 20 21]
    sq lvl range
  show ?thesis
    by (simp add: demo_mounted_def)
qed

section \<open>Failure of the insert\<close>

text \<open>Whatever the awaited insert gives, the React state (pieces, dragged piece, start
  time, completed flag, completion time) is the same before and after, and no row is sent
  again. When the response carries an error, the failure toast is shown.\<close>

lemma settled_insert_keeps_local_state:
  "local_state (saveGameResult_settled outcome s) = local_state s
   \<and> inserts (saveGameResult_settled outcome s) = inserts s
   \<and> toasts (saveGameResult_settled (InsertError reason) s) = toasts s @ [FailedToSave]
   \<and> step pr (InsertSettled outcome) s = saveGameResult_settled outcome s"
proof -
  have "local_state (saveGameResult_settled outcome s) = local_state s"
    and "inserts (saveGameResult_settled outcome s) = inserts s"
    by (cases outcome; simp add: local_state_def)+
  then show ?thesis
    by simp
qed

text \<open>
  C8. A failed insert is to leave the session as it is, to be surfaced as a notification
  and not to be retried. The session is left as it is and nothing is sent again on every
  path, but the notification is missing on one of the two failure paths: when awaiting the
  insert throws, in the completed sample session, the error is logged to the console and
  the toasts are the same as before, while the same failure reported in the response
  shows the failure toast.
\<close>

theorem insert_exception_shows_no_toast:
  "gameCompleted demo_mounted
   \<and> toasts (step demo_props (InsertSettled (InsertThrew ''network'')) demo_mounted)
       = toasts demo_mounted
   \<and> console (step demo_props (InsertSettled (InsertThrew ''network'')) demo_mounted)
       = [''network'']
   \<and> local_state (step demo_props (InsertSettled (InsertThrew ''network'')) demo_mounted)
       = local_state demo_mounted
   \<and> inserts (step demo_props (InsertSettled (InsertThrew ''network'')) demo_mounted)
       = inserts demo_mounted
   \<and> toasts (step demo_props (InsertSettled (InsertError ''network'')) demo_mounted)
       = toasts demo_mounted @ [FailedToSave]"
  by (simp add: demo_mounted_eq local_state_def)

section \<open>Statistics\<close>

text \<open>
  C6. The statistics of a user: without rows they are 0, 0 and no best time; on rows they
  count the rows, sum the scores and take the least time. The code keeps a row for the
  best time only when its \<open>time_taken\<close> is truthy, so a row with 0 seconds has no part in
  it: for a user whose only result took 0 seconds the count is 1 and the total is the
  score, but the best time is missing, where the least time over the results is 0.
\<close>

theorem best_time_skips_zero_seconds:
  "fetchUserStats (Some [\<lparr>user_id = ''u1'', level_id = ''ha-long-bay'', completed_at = Some 5,
                           time_taken = Some 0, score = Some 1000\<rparr>])
     = \<lparr>puzzles_completed = 1, total_score = 1000, best_time = None\<rparr>"
  by (simp add: fetchUserStats_def truthy_def or_zero_def)

end
